theory Spec2Isabelle
  imports Main "HOL-Library.Word"
begin

text \<open>
  A shallow embedding of the reactor core: \<open>EventLoop.cc\<close>, \<open>Thread.cc\<close> and the inline
  members of \<open>TcpConnection.h\<close>. A C++ member \<open>x_\<close> is written \<open>x_'\<close> (an Isabelle name
  cannot end in an underscore).
\<close>

section \<open>Actions, logging and process exit\<close>

text \<open>
  A member function is a value of type \<open>io\<close>: the list of steps it takes on things outside
  the object (system calls, the mutex, calls into Channel, Poller and user code), in
  program order, and then either the value it returns or the fact that the process ended.
\<close>

datatype level = DEBUG | INFO | ERROR | FATAL

datatype ('c, 'f) action =
    Log level string
  | NewDefaultPoller
  | NewChannel int
  | SetReadCallback
  | EnableReading
  | DisableAll
  | Remove
  | SysClose int
  | SysRead int nat
  | SysWrite int "64 word" nat
  | Lock
  | Unlock
  | EmplaceBack 'f
  | SwapFunctors
  | Poll int
  | HandleEvent 'c int
  | Invoke 'f

datatype error = Exit | InvalidObject

type_synonym ('c, 'f, 'a) io = "('c, 'f) action list \<times> (error + 'a)"

definition io_return :: "'a \<Rightarrow> ('c, 'f, 'a) io" where
  "io_return x = ([], Inr x)"

definition io_emit :: "('c, 'f) action \<Rightarrow> ('c, 'f, unit) io" where
  "io_emit a = ([a], Inr ())"

definition io_bind :: "('c, 'f, 'a) io \<Rightarrow> ('a \<Rightarrow> ('c, 'f, 'b) io) \<Rightarrow> ('c, 'f, 'b) io" where
  "io_bind m k =
     (case m of
        (as, Inl e) \<Rightarrow> (as, Inl e)
      | (as, Inr x) \<Rightarrow> (case k x of (bs, r) \<Rightarrow> (as @ bs, r)))"

definition aborts :: "('c, 'f, 'a) io \<Rightarrow> bool" where
  "aborts m = (case snd m of Inl e \<Rightarrow> True | Inr x \<Rightarrow> False)"

text \<open>
  Modelled from the spec: the macros \<open>LOG_DEBUG\<close>, \<open>LOG_INFO\<close>, \<open>LOG_ERROR\<close> and \<open>LOG_FATAL\<close>
  of \<open>Logger.h\<close>, which is not among the sources. Every level writes a diagnostic;
  \<open>LOG_FATAL\<close> then ends the process (``fatal'', ``abort the process with a diagnostic''),
  the other levels return to the caller (``logged but not fatal''). The format string is
  kept without its arguments and its trailing newline.
\<close>

definition LOG_DEBUG :: "string \<Rightarrow> ('c, 'f, unit) io" where
  "LOG_DEBUG msg = io_emit (Log DEBUG msg)"

definition LOG_INFO :: "string \<Rightarrow> ('c, 'f, unit) io" where
  "LOG_INFO msg = io_emit (Log INFO msg)"

definition LOG_ERROR :: "string \<Rightarrow> ('c, 'f, unit) io" where
  "LOG_ERROR msg = io_emit (Log ERROR msg)"

definition LOG_FATAL :: "string \<Rightarrow> ('c, 'f, unit) io" where
  "LOG_FATAL msg = ([Log FATAL msg], Inl Exit)"

section \<open>EventLoop.cc\<close>

subsection \<open>File-scope declarations\<close>

text \<open>
  Lines 15 to 19 of the file, in order:
  \<^verbatim>\<open>const int kPollTimeMs = 10000;\<close>,
  \<^verbatim>\<open>__thread EventLoop *t_loopInThisThread = nullptr;\<close>,
  \<^verbatim>\<open>const int kPollTimeMs = 10000;\<close>.
\<close>

datatype file_decl = ConstInt string int | ThreadLocalPointer string

definition EventLoop_cc_declarations :: "file_decl list" where
  "EventLoop_cc_declarations =
     [ConstInt ''kPollTimeMs'' 10000,
      ThreadLocalPointer ''t_loopInThisThread'',
      ConstInt ''kPollTimeMs'' 10000]"

fun values_of :: "string \<Rightarrow> file_decl list \<Rightarrow> int list" where
  "values_of x [] = []"
| "values_of x (ConstInt y v # ds) = (if x = y then v # values_of x ds else values_of x ds)"
| "values_of x (ThreadLocalPointer y # ds) = values_of x ds"

definition kPollTimeMs :: int where
  "kPollTimeMs = 10000"

subsection \<open>The object\<close>

text \<open>
  The data members the member functions of \<open>EventLoop.cc\<close> read and write. \<open>'c\<close> is the
  type of the \<open>Channel*\<close> values the poller reports, \<open>'f\<close> the type of the queued
  \<open>Functor\<close> values. \<open>poller_\<close>, \<open>wakeupChannel_\<close> and \<open>mutex_\<close> are used only through the
  actions above. \<open>threadId_\<close> is the \<open>pid_t\<close> of \<open>CurrentThread::tid()\<close>, \<open>pollReturnTime_\<close>
  a \<open>Timestamp\<close> (microseconds).
\<close>

record ('c, 'f) EventLoop =
  looping_' :: bool
  quit_' :: bool
  callingPendingFunctors_' :: bool
  threadId_' :: int
  pollReturnTime_' :: int
  wakeupFd_' :: int
  activeChannels_' :: "'c list"
  pendingFunctors_' :: "'f list"

text \<open>
  Modelled from the spec: what \<open>Channel::handleEvent\<close> (of \<open>Channel.h\<close>, not among the
  sources) and a call of a queued task do. Both are user-supplied code run on the loop;
  each is taken as a parameter, an arbitrary update of the loop object.
\<close>

record ('c, 'f) callbacks =
  handleEvent :: "'c \<Rightarrow> int \<Rightarrow> ('c, 'f) EventLoop \<Rightarrow> ('c, 'f) EventLoop"
  call :: "'f \<Rightarrow> ('c, 'f) EventLoop \<Rightarrow> ('c, 'f) EventLoop"

text \<open>
  Modelled from the spec: \<open>isInLoopThread()\<close> of \<open>EventLoop.h\<close>, which is not among the
  sources: ``the caller is the loop's owning thread''. \<open>tid\<close> is the calling thread's
  \<open>CurrentThread::tid()\<close>.
\<close>

definition isInLoopThread :: "int \<Rightarrow> ('c, 'f) EventLoop \<Rightarrow> bool" where
  "isInLoopThread tid L = (threadId_' L = tid)"

subsection \<open>Construction and destruction\<close>

text \<open>\<open>evtfd\<close> is what \<open>::eventfd(0, EFD_NONBLOCK | EFD_CLOEXEC)\<close> returns.\<close>

definition createEventfd :: "int \<Rightarrow> ('c, 'f, int) io" where
  "createEventfd evtfd =
     (if evtfd < 0
      then io_bind (LOG_FATAL ''eventfd error:%d'') (\<lambda>_. io_return evtfd)
      else io_return evtfd)"

text \<open>
  \<open>t_loopInThisThread\<close> is thread-local: one pointer per thread. The model keeps all of
  them, indexed by thread id; \<open>None\<close> is \<open>nullptr\<close>. A constructor or destructor run by
  thread \<open>tid\<close> reads and writes the slot of \<open>tid\<close> only. \<open>this\<close> is the address of the
  object under construction. \<open>pollReturnTime_\<close> is not in the initialiser list; its
  default-constructed \<open>Timestamp\<close> is taken as 0.
\<close>

type_synonym thread_locals = "int \<Rightarrow> nat option"

definition EventLoop_ctor ::
  "nat \<Rightarrow> int \<Rightarrow> int \<Rightarrow> thread_locals \<Rightarrow> ('c, 'f, thread_locals \<times> ('c, 'f) EventLoop) io" where
  "EventLoop_ctor this tid evtfd t_loopInThisThread =
     io_bind (io_emit NewDefaultPoller) (\<lambda>_.
     io_bind (createEventfd evtfd) (\<lambda>fd.
     let L = \<lparr>looping_' = False, quit_' = False, callingPendingFunctors_' = False,
              threadId_' = tid, pollReturnTime_' = 0, wakeupFd_' = fd,
              activeChannels_' = [], pendingFunctors_' = []\<rparr> in
     io_bind (io_emit (NewChannel fd)) (\<lambda>_.
     io_bind (LOG_DEBUG ''EventLoop created %p in thread %d'') (\<lambda>_.
     io_bind
       (case t_loopInThisThread tid of
          Some other \<Rightarrow>
            io_bind (LOG_FATAL ''Another EventLoop %p exists in this thread %d'')
              (\<lambda>_. io_return t_loopInThisThread)
        | None \<Rightarrow> io_return (t_loopInThisThread(tid \<mapsto> this))) (\<lambda>t_loopInThisThread'.
     io_bind (io_emit SetReadCallback) (\<lambda>_.
     io_bind (io_emit EnableReading) (\<lambda>_.
     io_return (t_loopInThisThread', L))))))))"

text \<open>\<open>tid\<close> is the thread that runs the destructor.\<close>

definition EventLoop_dtor ::
  "int \<Rightarrow> ('c, 'f) EventLoop \<Rightarrow> thread_locals \<Rightarrow> ('c, 'f, thread_locals) io" where
  "EventLoop_dtor tid L t_loopInThisThread =
     io_bind (io_emit DisableAll) (\<lambda>_.
     io_bind (io_emit Remove) (\<lambda>_.
     io_bind (io_emit (SysClose (wakeupFd_' L))) (\<lambda>_.
     io_return (t_loopInThisThread(tid := None)))))"

subsection \<open>The wake-up descriptor\<close>

text \<open>
  \<open>n\<close> is the \<open>ssize_t\<close> that \<open>read\<close> or \<open>write\<close> returns, as its 64-bit pattern: the
  comparison \<open>n != sizeof one\<close> converts it to \<open>size_t\<close>. \<open>one\<close> is a \<open>uint64_t\<close>, so
  \<open>sizeof one\<close> is 8.
\<close>

definition handleRead :: "64 word \<Rightarrow> ('c, 'f) EventLoop \<Rightarrow> ('c, 'f, unit) io" where
  "handleRead n L =
     io_bind (io_emit (SysRead (wakeupFd_' L) 8)) (\<lambda>_.
     if n \<noteq> 8
     then LOG_ERROR ''EventLoop::handleRead() reads %lu bytes instead of 8''
     else io_return ())"

definition wakeup :: "64 word \<Rightarrow> ('c, 'f) EventLoop \<Rightarrow> ('c, 'f, unit) io" where
  "wakeup n L =
     io_bind (io_emit (SysWrite (wakeupFd_' L) 1 8)) (\<lambda>_.
     if n \<noteq> 8
     then LOG_ERROR ''EventLoop::wakeup() writes %lu bytes instead of 8''
     else io_return ())"

subsection \<open>Tasks\<close>

text \<open>
  \<open>tid\<close> is the calling thread; \<open>n\<close> is the result of the \<open>write\<close> that \<open>wakeup()\<close> makes,
  if it is called.
\<close>

definition queueInLoop ::
  "64 word \<Rightarrow> int \<Rightarrow> 'f \<Rightarrow> ('c, 'f) EventLoop \<Rightarrow> ('c, 'f, ('c, 'f) EventLoop) io" where
  "queueInLoop n tid cb L =
     io_bind (io_emit Lock) (\<lambda>_.
     io_bind (io_emit (EmplaceBack cb)) (\<lambda>_.
     let L1 = L\<lparr>pendingFunctors_' := pendingFunctors_' L @ [cb]\<rparr> in
     io_bind (io_emit Unlock) (\<lambda>_.
     if \<not> isInLoopThread tid L1 \<or> callingPendingFunctors_' L1
     then io_bind (wakeup n L1) (\<lambda>_. io_return L1)
     else io_return L1)))"

definition runInLoop ::
  "('c, 'f) callbacks \<Rightarrow> 64 word \<Rightarrow> int \<Rightarrow> 'f \<Rightarrow> ('c, 'f) EventLoop
     \<Rightarrow> ('c, 'f, ('c, 'f) EventLoop) io" where
  "runInLoop cbs n tid cb L =
     (if isInLoopThread tid L
      then io_bind (io_emit (Invoke cb)) (\<lambda>_. io_return (call cbs cb L))
      else queueInLoop n tid cb L)"

definition quit :: "64 word \<Rightarrow> int \<Rightarrow> ('c, 'f) EventLoop \<Rightarrow> ('c, 'f, ('c, 'f) EventLoop) io" where
  "quit n tid L =
     (let L1 = L\<lparr>quit_' := True\<rparr> in
      if \<not> isInLoopThread tid L1
      then io_bind (wakeup n L1) (\<lambda>_. io_return L1)
      else io_return L1)"

fun run_functors ::
  "('c, 'f) callbacks \<Rightarrow> 'f list \<Rightarrow> ('c, 'f) EventLoop \<Rightarrow> ('c, 'f, ('c, 'f) EventLoop) io" where
  "run_functors cbs [] L = io_return L"
| "run_functors cbs (functor' # rest) L =
     io_bind (io_emit (Invoke functor')) (\<lambda>_. run_functors cbs rest (call cbs functor' L))"

definition doPendingFunctors ::
  "('c, 'f) callbacks \<Rightarrow> ('c, 'f) EventLoop \<Rightarrow> ('c, 'f, ('c, 'f) EventLoop) io" where
  "doPendingFunctors cbs L =
     (let L1 = L\<lparr>callingPendingFunctors_' := True\<rparr> in
      io_bind (io_emit Lock) (\<lambda>_.
      io_bind (io_emit SwapFunctors) (\<lambda>_.
      let functors = pendingFunctors_' L1;
          L2 = L1\<lparr>pendingFunctors_' := []\<rparr> in
      io_bind (io_emit Unlock) (\<lambda>_.
      io_bind (run_functors cbs functors L2) (\<lambda>L3.
      io_return (L3\<lparr>callingPendingFunctors_' := False\<rparr>))))))"

subsection \<open>The loop\<close>

text \<open>The range-for over \<open>activeChannels_\<close>, calling \<open>channel->handleEvent(pollReturnTime_)\<close>.\<close>

fun dispatch ::
  "('c, 'f) callbacks \<Rightarrow> 'c list \<Rightarrow> ('c, 'f) EventLoop \<Rightarrow> ('c, 'f, ('c, 'f) EventLoop) io" where
  "dispatch cbs [] L = io_return L"
| "dispatch cbs (channel # rest) L =
     io_bind (io_emit (HandleEvent channel (pollReturnTime_' L))) (\<lambda>_.
     dispatch cbs rest (handleEvent cbs channel (pollReturnTime_' L) L))"

text \<open>
  One pass through the body of \<open>while(!quit_)\<close>. \<open>p\<close> is what this call of
  \<open>poller_->poll(kPollTimeMs, &activeChannels_)\<close> produces: the time it returns and the
  channels it appends to the (just cleared) vector.
\<close>

definition iteration ::
  "('c, 'f) callbacks \<Rightarrow> int \<times> 'c list \<Rightarrow> ('c, 'f) EventLoop
     \<Rightarrow> ('c, 'f, ('c, 'f) EventLoop) io" where
  "iteration cbs p L =
     (let L1 = L\<lparr>activeChannels_' := []\<rparr> in
      io_bind (io_emit (Poll kPollTimeMs)) (\<lambda>_.
      let L2 = L1\<lparr>activeChannels_' := activeChannels_' L1 @ snd p, pollReturnTime_' := fst p\<rparr> in
      io_bind (dispatch cbs (activeChannels_' L2) L2) (\<lambda>L3.
      doPendingFunctors cbs L3)))"

text \<open>
  The \<open>while\<close> loop, driven by the results of the successive polls. It need not end: the
  loop returns \<open>Some\<close> of the final object when \<open>quit_\<close> is seen at the loop head, and
  \<open>None\<close> when the given poll results are used up with the loop still running.
\<close>

fun loop_while ::
  "('c, 'f) callbacks \<Rightarrow> (int \<times> 'c list) list \<Rightarrow> ('c, 'f) EventLoop
     \<Rightarrow> ('c, 'f, ('c, 'f) EventLoop option) io" where
  "loop_while cbs [] L = (if \<not> quit_' L then io_return None else io_return (Some L))"
| "loop_while cbs (p # ps) L =
     (if \<not> quit_' L
      then io_bind (iteration cbs p L) (\<lambda>L'. loop_while cbs ps L')
      else io_return (Some L))"

definition loop ::
  "('c, 'f) callbacks \<Rightarrow> (int \<times> 'c list) list \<Rightarrow> ('c, 'f) EventLoop
     \<Rightarrow> ('c, 'f, ('c, 'f) EventLoop option) io" where
  "loop cbs ps L =
     (let L1 = L\<lparr>looping_' := True, quit_' := False\<rparr> in
      io_bind (LOG_INFO ''EventLoop %p start looping'') (\<lambda>_.
      io_bind (loop_while cbs ps L1) (\<lambda>r.
      case r of
        None \<Rightarrow> io_return None
      | Some L2 \<Rightarrow>
          io_bind (LOG_INFO ''EventLoop %p stop looping.'') (\<lambda>_.
          io_return (Some (L2\<lparr>looping_' := False\<rparr>))))))"



text \<open>The channels handled and the tasks called, read off a list of actions.\<close>

fun handled :: "('c, 'f) action list \<Rightarrow> 'c list" where
  "handled [] = []"
| "handled (HandleEvent c t # as) = c # handled as"
| "handled (a # as) = handled as"

fun invoked :: "('c, 'f) action list \<Rightarrow> 'f list" where
  "invoked [] = []"
| "invoked (Invoke f # as) = f # invoked as"
| "invoked (a # as) = invoked as"

fun polls :: "('c, 'f) action list \<Rightarrow> nat" where
  "polls [] = 0"
| "polls (Poll t # as) = Suc (polls as)"
| "polls (a # as) = polls as"

subsection \<open>An example loop\<close>

text \<open>
  A loop of thread 1 with wake-up descriptor 5, as its constructor leaves it. In the
  example callbacks, the handler of channel \<open>c\<close> queues task \<open>c\<close> from the loop thread
  (outside the deferred-task phase, so without a wake-up), and every task sets the quit
  flag, as \<open>quit()\<close> does on the loop thread. \<open>stopped_loop\<close> is the object after
  \<open>loop()\<close> has run one pass with channel 7 active and returned.
\<close>

definition demo_loop :: "(nat, nat) EventLoop" where
  "demo_loop =
     \<lparr>looping_' = False, quit_' = False, callingPendingFunctors_' = False,
      threadId_' = 1, pollReturnTime_' = 0, wakeupFd_' = 5,
      activeChannels_' = [], pendingFunctors_' = []\<rparr>"

definition demo_callbacks :: "(nat, nat) callbacks" where
  "demo_callbacks =
     \<lparr>handleEvent = (\<lambda>c t L. L\<lparr>pendingFunctors_' := pendingFunctors_' L @ [c]\<rparr>),
      call = (\<lambda>f L. L\<lparr>quit_' := True\<rparr>)\<rparr>"

definition stopped_loop :: "(nat, nat) EventLoop" where
  "stopped_loop =
     \<lparr>looping_' = False, quit_' = True, callingPendingFunctors_' = False,
      threadId_' = 1, pollReturnTime_' = 100, wakeupFd_' = 5,
      activeChannels_' = [7], pendingFunctors_' = []\<rparr>"

subsection \<open>All loops of a process\<close>

text \<open>
  The process: every thread's \<open>t_loopInThisThread\<close> and the EventLoop objects that exist,
  by address, in order of construction. \<open>New this tid evtfd\<close>: thread \<open>tid\<close> constructs
  an EventLoop at address \<open>this\<close>. \<open>Delete this tid\<close>: thread \<open>tid\<close> destroys the EventLoop
  at \<open>this\<close>. Constructing at the address of an existing object, or destroying what does
  not exist, is outside the language; the model stops with \<open>InvalidObject\<close>.
\<close>

record ('c, 'f) process =
  t_loopInThisThread :: thread_locals
  loops :: "(nat \<times> ('c, 'f) EventLoop) list"

datatype operation = New nat int int | Delete nat int

definition start_of_process :: "('c, 'f) process" where
  "start_of_process = \<lparr>t_loopInThisThread = (\<lambda>tid. None), loops = []\<rparr>"

fun step :: "operation \<Rightarrow> ('c, 'f) process \<Rightarrow> error + ('c, 'f) process" where
  "step (New this tid evtfd) P =
     (case map_of (loops P) this of
        Some L \<Rightarrow> Inl InvalidObject
      | None \<Rightarrow>
          (case snd (EventLoop_ctor this tid evtfd (t_loopInThisThread P)
                      :: ('c, 'f, thread_locals \<times> ('c, 'f) EventLoop) io) of
             Inl e \<Rightarrow> Inl e
           | Inr (tls, L) \<Rightarrow> Inr (P\<lparr>t_loopInThisThread := tls, loops := loops P @ [(this, L)]\<rparr>)))"
| "step (Delete this tid) P =
     (case map_of (loops P) this of
        None \<Rightarrow> Inl InvalidObject
      | Some L \<Rightarrow>
          (case snd (EventLoop_dtor tid L (t_loopInThisThread P) :: ('c, 'f, thread_locals) io) of
             Inl e \<Rightarrow> Inl e
           | Inr tls \<Rightarrow>
               Inr (P\<lparr>t_loopInThisThread := tls,
                      loops := filter (\<lambda>entry. fst entry \<noteq> this) (loops P)\<rparr>)))"

fun run :: "operation list \<Rightarrow> ('c, 'f) process \<Rightarrow> error + ('c, 'f) process" where
  "run [] P = Inr P"
| "run (x # xs) P = (case step x P of Inl e \<Rightarrow> Inl e | Inr P' \<Rightarrow> run xs P')"

text \<open>The EventLoops that exist and belong to thread \<open>tid\<close>.\<close>

definition loops_in_thread :: "('c, 'f) process \<Rightarrow> int \<Rightarrow> (nat \<times> ('c, 'f) EventLoop) list" where
  "loops_in_thread P tid = filter (\<lambda>entry. threadId_' (snd entry) = tid) (loops P)"

text \<open>Every destructor in the run is called by the thread that owns the loop it destroys.\<close>

fun by_owner :: "operation \<Rightarrow> ('c, 'f) process \<Rightarrow> bool" where
  "by_owner (New this tid evtfd) P = True"
| "by_owner (Delete this tid) P =
     (case map_of (loops P) this of None \<Rightarrow> False | Some L \<Rightarrow> threadId_' L = tid)"

fun destroyed_by_owner :: "operation list \<Rightarrow> ('c, 'f) process \<Rightarrow> bool" where
  "destroyed_by_owner [] P = True"
| "destroyed_by_owner (x # xs) P =
     (by_owner x P \<and> (case step x P of Inl e \<Rightarrow> True | Inr P' \<Rightarrow> destroyed_by_owner xs P'))"

text \<open>
  The invariant behind the one-loop-per-thread property: no two existing loops share an
  address, and the slot of each existing loop's owning thread points to that loop.
\<close>

definition sentinel_inv :: "('c, 'f) process \<Rightarrow> bool" where
  "sentinel_inv P =
     (distinct (map fst (loops P))
      \<and> (\<forall>entry \<in> set (loops P).
            t_loopInThisThread P (threadId_' (snd entry)) = Some (fst entry)))"

section \<open>Thread.cc: \<open>Thread::start\<close>\<close>

text \<open>
  \<open>start()\<close> runs in two threads: the caller, and the worker that runs the lambda. Each is
  a sequence of atomic steps; a schedule says what happens next: the caller takes its next
  step, the worker takes its next step, the creation of the worker thread fails, or a
  signal handler interrupts the caller. A thread that cannot move (the caller in
  \<open>sem_wait\<close> on a zero semaphore, a thread that has finished, the worker before it is
  created) stays where it is. \<open>w\<close> is what \<open>CurrentThread::tid()\<close> returns in the worker.
\<close>

record Thread =
  started_' :: bool
  joined_' :: bool
  tid_' :: int

definition Thread_ctor :: Thread where
  "Thread_ctor = \<lparr>started_' = False, joined_' = False, tid_' = 0\<rparr>"

text \<open>
  Where the caller is in \<open>start()\<close>: at its first statement, at the construction of the
  \<open>std::thread\<close>, at \<open>sem_wait\<close>, returned to its caller, or left by the exception of a
  failed thread creation. Where the worker is in the lambda: not created, at the store to
  \<open>tid_\<close>, at \<open>sem_post\<close>, at the call of \<open>func_\<close>, or past that call.
\<close>

datatype caller_at = Entry | BeforeSpawn | SemWait | Returned | Thrown

datatype worker_at = NotCreated | StoreTid | SemPost | CallFunc | FuncCalled

datatype thread_choice = Caller | Worker | SpawnFails | Signal

record start_state =
  thread :: Thread
  sem :: nat
  caller :: caller_at
  worker :: worker_at

text \<open>\<open>sem0\<close> is what the uninitialised \<open>sem_t\<close> holds before \<open>sem_init\<close>.\<close>

definition start_entry :: "nat \<Rightarrow> start_state" where
  "start_entry sem0 = \<lparr>thread = Thread_ctor, sem = sem0, caller = Entry, worker = NotCreated\<rparr>"

text \<open>
  The caller's next step when nothing fails: \<open>started_ = true\<close> and \<open>sem_init(&sem, 0, 0)\<close>;
  the creation of the worker; \<open>sem_wait(&sem)\<close>, which takes one unit of a positive
  semaphore and returns 0, and blocks while the semaphore is 0.
\<close>

definition caller_step :: "start_state \<Rightarrow> start_state" where
  "caller_step s =
     (case caller s of
        Entry \<Rightarrow> s\<lparr>thread := (thread s)\<lparr>started_' := True\<rparr>, sem := 0, caller := BeforeSpawn\<rparr>
      | BeforeSpawn \<Rightarrow> s\<lparr>worker := StoreTid, caller := SemWait\<rparr>
      | SemWait \<Rightarrow> (if 0 < sem s then s\<lparr>sem := sem s - 1, caller := Returned\<rparr> else s)
      | Returned \<Rightarrow> s
      | Thrown \<Rightarrow> s)"

text \<open>
  The constructor of \<open>std::thread\<close> cannot start the thread and throws; \<open>start()\<close> has no
  handler, so the exception leaves it and no worker exists.
\<close>

definition caller_spawn_fails :: "start_state \<Rightarrow> start_state" where
  "caller_spawn_fails s =
     (case caller s of
        Entry \<Rightarrow> s
      | BeforeSpawn \<Rightarrow> s\<lparr>caller := Thrown\<rparr>
      | SemWait \<Rightarrow> s
      | Returned \<Rightarrow> s
      | Thrown \<Rightarrow> s)"

text \<open>
  A signal handler interrupts the caller. If the caller is blocked in \<open>sem_wait\<close> (the
  semaphore is 0), \<open>sem_wait\<close> returns -1 with \<open>EINTR\<close> and leaves the semaphore as it is;
  \<open>start()\<close> discards the result of \<open>sem_wait\<close> and does not call it again, so it returns.
  Anywhere else the handler runs and the caller goes on where it was.
\<close>

definition caller_interrupted :: "start_state \<Rightarrow> start_state" where
  "caller_interrupted s =
     (case caller s of
        Entry \<Rightarrow> s
      | BeforeSpawn \<Rightarrow> s
      | SemWait \<Rightarrow> (if sem s = 0 then s\<lparr>caller := Returned\<rparr> else s)
      | Returned \<Rightarrow> s
      | Thrown \<Rightarrow> s)"

text \<open>
  The worker's next step: \<open>tid_ = CurrentThread::tid()\<close>; \<open>sem_post(&sem)\<close>; \<open>func_()\<close>.
\<close>

definition worker_step :: "int \<Rightarrow> start_state \<Rightarrow> start_state" where
  "worker_step w s =
     (case worker s of
        NotCreated \<Rightarrow> s
      | StoreTid \<Rightarrow> s\<lparr>thread := (thread s)\<lparr>tid_' := w\<rparr>, worker := SemPost\<rparr>
      | SemPost \<Rightarrow> s\<lparr>sem := sem s + 1, worker := CallFunc\<rparr>
      | CallFunc \<Rightarrow> s\<lparr>worker := FuncCalled\<rparr>
      | FuncCalled \<Rightarrow> s)"

fun start_step :: "int \<Rightarrow> thread_choice \<Rightarrow> start_state \<Rightarrow> start_state" where
  "start_step w Caller s = caller_step s"
| "start_step w Worker s = worker_step w s"
| "start_step w SpawnFails s = caller_spawn_fails s"
| "start_step w Signal s = caller_interrupted s"

definition start_run :: "int \<Rightarrow> thread_choice list \<Rightarrow> start_state \<Rightarrow> start_state" where
  "start_run w schedule s = fold (start_step w) schedule s"

text \<open>The worker has executed \<open>tid_ = CurrentThread::tid()\<close>.\<close>

definition tid_assigned :: "int \<Rightarrow> start_state \<Rightarrow> bool" where
  "tid_assigned w s =
     ((worker s = SemPost \<or> worker s = CallFunc \<or> worker s = FuncCalled) \<and> tid_' (thread s) = w)"

text \<open>
  What holds under every schedule: where the two threads can be relative to each other,
  and what the semaphore holds there.
\<close>

definition start_inv :: "int \<Rightarrow> start_state \<Rightarrow> bool" where
  "start_inv w s =
     ((worker s = SemPost \<or> worker s = CallFunc \<or> worker s = FuncCalled \<longrightarrow> tid_' (thread s) = w)
      \<and> (caller s = Entry \<or> caller s = BeforeSpawn \<or> caller s = Thrown \<longrightarrow> worker s = NotCreated)
      \<and> (caller s = BeforeSpawn \<longrightarrow> sem s = 0)
      \<and> (caller s = SemWait \<longrightarrow> worker s \<noteq> NotCreated)
      \<and> (caller s = SemWait \<and> (worker s = StoreTid \<or> worker s = SemPost) \<longrightarrow> sem s = 0)
      \<and> (caller s = SemWait \<and> (worker s = CallFunc \<or> worker s = FuncCalled) \<longrightarrow> 0 < sem s))"

text \<open>
  What holds in addition as long as no signal interrupts the caller: \<open>start()\<close> has returned
  only if the worker is past \<open>sem_post\<close>.
\<close>

definition handshake_inv :: "int \<Rightarrow> start_state \<Rightarrow> bool" where
  "handshake_inv w s =
     (start_inv w s \<and> (caller s = Returned \<longrightarrow> worker s = CallFunc \<or> worker s = FuncCalled))"

section \<open>TcpConnection.h: the connection state and \<open>connected()\<close>\<close>

text \<open>
  \<^verbatim>\<open>enum StateE {kDisconnected, kConnecting, kConnected, kDisconnecting};\<close>
  The member \<open>state_\<close> is a \<open>std::atomic_int\<close>: it stores the enumerator's integer value,
  and \<open>connected()\<close> compares that integer with the value of \<open>kConnected\<close>.
\<close>

datatype StateE = kDisconnected | kConnecting | kConnected | kDisconnecting

fun StateE_value :: "StateE \<Rightarrow> int" where
  "StateE_value kDisconnected = 0"
| "StateE_value kConnecting = 1"
| "StateE_value kConnected = 2"
| "StateE_value kDisconnecting = 3"

record TcpConnection =
  state_' :: int
  reading_' :: bool
  highWaterMark_' :: nat

definition setState :: "StateE \<Rightarrow> TcpConnection \<Rightarrow> TcpConnection" where
  "setState state c = c\<lparr>state_' := StateE_value state\<rparr>"

definition connected :: "TcpConnection \<Rightarrow> bool" where
  "connected c = (state_' c = StateE_value kConnected)"

section \<open>Theorems\<close>

subsection \<open>Evaluating \<open>io\<close> values\<close>

lemma io_bind_Inr: "io_bind (as, Inr x) k = (as @ fst (k x), snd (k x))"
  by (simp add: io_bind_def split: prod.split)

lemma io_bind_Inl: "io_bind (as, Inl e) k = (as, Inl e)"
  by (simp add: io_bind_def)

lemmas io_simps = io_bind_Inr io_bind_Inl io_emit_def io_return_def
  LOG_DEBUG_def LOG_INFO_def LOG_ERROR_def LOG_FATAL_def

lemmas demo_simps = loop_def iteration_def doPendingFunctors_def io_simps kPollTimeMs_def
  demo_loop_def demo_callbacks_def stopped_loop_def

subsection \<open>Construction and destruction: one loop per thread\<close>

lemma snd_EventLoop_ctor:
  "snd (EventLoop_ctor this tid evtfd tls) =
     (if evtfd < 0 \<or> tls tid \<noteq> None then Inl Exit
      else Inr (tls(tid \<mapsto> this),
        \<lparr>looping_' = False, quit_' = False, callingPendingFunctors_' = False,
         threadId_' = tid, pollReturnTime_' = 0, wakeupFd_' = evtfd,
         activeChannels_' = [], pendingFunctors_' = []\<rparr>))"
  by (auto simp: EventLoop_ctor_def createEventfd_def io_simps Let_def split: option.splits)

lemma snd_EventLoop_dtor: "snd (EventLoop_dtor tid L tls) = Inr (tls(tid := None))"
  by (simp add: EventLoop_dtor_def io_simps)

lemma sentinel_inv_start: "sentinel_inv start_of_process"
  by (simp add: sentinel_inv_def start_of_process_def)

lemma step_New_inv:
  assumes "sentinel_inv P" and "step (New this tid evtfd) P = Inr P'"
  shows "sentinel_inv P'"
proof -
  from assms(2) have fresh: "map_of (loops P) this = None"
    by (simp split: option.splits)
  from assms(2) fresh have ok: "\<not> evtfd < 0" "t_loopInThisThread P tid = None"
    by (auto simp: snd_EventLoop_ctor split: if_splits)
  from assms(2) fresh ok have P': "P' = P\<lparr>t_loopInThisThread := (t_loopInThisThread P)(tid \<mapsto> this),
       loops := loops P @ [(this,
        \<lparr>looping_' = False, quit_' = False, callingPendingFunctors_' = False,
         threadId_' = tid, pollReturnTime_' = 0, wakeupFd_' = evtfd,
         activeChannels_' = [], pendingFunctors_' = []\<rparr>)]\<rparr>"
    by (simp add: snd_EventLoop_ctor)
  from fresh have notin: "this \<notin> fst ` set (loops P)"
    by (simp add: map_of_eq_None_iff)
  have others: "threadId_' (snd entry) \<noteq> tid" if "entry \<in> set (loops P)" for entry
    using assms(1) ok(2) that by (auto simp: sentinel_inv_def)
  show ?thesis
    using assms(1) notin others by (auto simp: sentinel_inv_def P')
qed

lemma step_Delete_inv:
  assumes "sentinel_inv P" and "by_owner (Delete this tid) P" and "step (Delete this tid) P = Inr P'"
  shows "sentinel_inv P'"
proof -
  from assms(2) obtain L where L: "map_of (loops P) this = Some L" "threadId_' L = tid"
    by (auto split: option.splits)
  from assms(3) L have P': "P' = P\<lparr>t_loopInThisThread := (t_loopInThisThread P)(tid := None),
       loops := filter (\<lambda>entry. fst entry \<noteq> this) (loops P)\<rparr>"
    by (simp add: snd_EventLoop_dtor)
  from L(1) have "(this, L) \<in> set (loops P)" by (rule map_of_SomeD)
  with assms(1) L(2) have slot: "t_loopInThisThread P tid = Some this"
    by (auto simp: sentinel_inv_def)
  have others: "threadId_' (snd entry) \<noteq> tid"
    if "entry \<in> set (loops P)" "fst entry \<noteq> this" for entry
    using assms(1) slot that by (auto simp: sentinel_inv_def)
  show ?thesis
    using assms(1) others by (auto simp: sentinel_inv_def P' distinct_map_filter)
qed

lemma step_inv:
  "sentinel_inv P \<Longrightarrow> by_owner x P \<Longrightarrow> step x P = Inr P' \<Longrightarrow> sentinel_inv P'"
  by (cases x) (blast intro: step_New_inv step_Delete_inv)+

lemma run_inv:
  "sentinel_inv P \<Longrightarrow> destroyed_by_owner xs P \<Longrightarrow> run xs P = Inr P' \<Longrightarrow> sentinel_inv P'"
proof (induction xs arbitrary: P)
  case Nil
  then show ?case by simp
next
  case (Cons x xs)
  from Cons.prems(3) obtain P1 where P1: "step x P = Inr P1" "run xs P1 = Inr P'"
    by (auto split: sum.splits simp del: step.simps)
  from Cons.prems(2) P1(1) have "by_owner x P" "destroyed_by_owner xs P1"
    by (simp_all del: step.simps by_owner.simps)
  with Cons.IH [of P1] Cons.prems(1) P1 show ?case
    by (blast intro: step_inv)
qed

lemma filter_same_key:
  "distinct (map fst xs) \<Longrightarrow> \<forall>x \<in> set xs. Q x \<longrightarrow> fst x = a \<Longrightarrow> length (filter Q xs) \<le> Suc 0"
proof (induction xs)
  case Nil
  then show ?case by simp
next
  case (Cons x xs)
  show ?case
  proof (cases "Q x")
    case True
    with Cons.prems(2) have "fst x = a" by simp
    moreover from Cons.prems(1) have "fst x \<notin> fst ` set xs" by simp
    ultimately have "\<forall>y \<in> set xs. \<not> Q y"
      using Cons.prems(2) by (metis image_eqI list.set_intros(2))
    then have "filter Q xs = []" by (simp add: filter_empty_conv)
    with True show ?thesis by simp
  next
    case False
    with Cons show ?thesis by simp
  qed
qed

lemma sentinel_inv_at_most_one:
  "sentinel_inv P \<Longrightarrow> length (loops_in_thread P tid) \<le> 1"
proof (cases "t_loopInThisThread P tid")
  case None
  assume "sentinel_inv P"
  with None have "filter (\<lambda>entry. threadId_' (snd entry) = tid) (loops P) = []"
    by (auto simp: sentinel_inv_def filter_empty_conv)
  then show ?thesis by (simp add: loops_in_thread_def)
next
  case (Some a)
  assume inv: "sentinel_inv P"
  then have d: "distinct (map fst (loops P))" by (simp add: sentinel_inv_def)
  from inv Some have "\<forall>entry \<in> set (loops P). threadId_' (snd entry) = tid \<longrightarrow> fst entry = a"
    by (auto simp: sentinel_inv_def)
  with d have "length (filter (\<lambda>entry. threadId_' (snd entry) = tid) (loops P)) \<le> Suc 0"
    by (rule filter_same_key)
  then show ?thesis by (simp add: loops_in_thread_def)
qed

text \<open>
  C1, as stated, fails: the destructor clears the slot of the thread that runs it, which
  need not be the loop's owner. Thread 1 constructs loop 1 and thread 2 constructs loop 2;
  thread 2 destroys loop 1, which clears the slot of thread 2 while loop 2 still exists;
  thread 2 then constructs loop 3 without complaint. Loops 2 and 3 now both exist and
  both belong to thread 2. The slot of thread 1 still points to the destroyed loop, so
  thread 1 can no longer construct a loop at all: its constructor exits.
\<close>

theorem destructor_on_other_thread_counterexample:
  "\<not> isl (run [New 1 1 3, New 2 2 4, Delete 1 2, New 3 2 5] (start_of_process :: (nat, nat) process))
   \<and> map fst (loops_in_thread
        (projr (run [New 1 1 3, New 2 2 4, Delete 1 2, New 3 2 5]
                  (start_of_process :: (nat, nat) process))) 2) = [2, 3]
   \<and> step (New 4 1 6)
        (projr (run [New 1 1 3, New 2 2 4, Delete 1 2, New 3 2 5]
                  (start_of_process :: (nat, nat) process))) = Inl Exit"
  by (simp add: snd_EventLoop_ctor snd_EventLoop_dtor start_of_process_def loops_in_thread_def)

text \<open>
  C1, amended. The constructor run by thread \<open>tid\<close> ends the process if the slot of \<open>tid\<close>
  is set, and otherwise (given a valid event descriptor) sets that slot to the new loop,
  which it makes a loop of \<open>tid\<close>. The destructor clears the slot of the thread that runs
  it, so that thread may construct a loop again. If every loop is destroyed by its owning
  thread, then after any run of constructions and destructions from the start of the
  process each thread has at most one existing EventLoop.
\<close>

theorem one_loop_per_thread_when_destroyed_by_owner:
  fixes L :: "('c, 'f) EventLoop" and P :: "('c, 'f) process"
  shows
  "(tls tid \<noteq> None \<longrightarrow>
      snd (EventLoop_ctor this tid evtfd tls :: ('c, 'f, thread_locals \<times> ('c, 'f) EventLoop) io)
        = Inl Exit)
   \<and> (tls tid = None \<and> 0 \<le> evtfd \<longrightarrow>
        (\<exists>L' :: ('c, 'f) EventLoop.
           snd (EventLoop_ctor this tid evtfd tls) = Inr (tls(tid \<mapsto> this), L')
           \<and> threadId_' L' = tid))
   \<and> snd (EventLoop_dtor tid L tls :: ('c, 'f, thread_locals) io) = Inr (tls(tid := None))
   \<and> (0 \<le> evtfd \<longrightarrow>
        \<not> aborts (EventLoop_ctor this tid evtfd (tls(tid := None))
              :: ('c, 'f, thread_locals \<times> ('c, 'f) EventLoop) io))
   \<and> (destroyed_by_owner xs (start_of_process :: ('c, 'f) process)
        \<and> run xs start_of_process = Inr P
      \<longrightarrow> length (loops_in_thread P t) \<le> 1)"
proof -
  have "length (loops_in_thread P t) \<le> 1"
    if "destroyed_by_owner xs (start_of_process :: ('c, 'f) process)"
      and "run xs start_of_process = Inr P"
    using run_inv [OF sentinel_inv_start that] by (rule sentinel_inv_at_most_one)
  then show ?thesis
    by (simp add: snd_EventLoop_ctor snd_EventLoop_dtor aborts_def)
qed

text \<open>
  The amended C1 at a run that keeps the discipline: thread 1 constructs loop 10, destroys
  it, constructs loop 11; thread 2 constructs loop 12. Thread 1 ends with loop 11 alone,
  and a further constructor in thread 1 exits.
\<close>

theorem one_loop_per_thread_when_destroyed_by_owner_witness:
  "destroyed_by_owner [New 10 1 3, Delete 10 1, New 11 1 4, New 12 2 5]
     (start_of_process :: (nat, nat) process)
   \<and> \<not> isl (run [New 10 1 3, Delete 10 1, New 11 1 4, New 12 2 5]
              (start_of_process :: (nat, nat) process))
   \<and> length (loops_in_thread
        (projr (run [New 10 1 3, Delete 10 1, New 11 1 4, New 12 2 5]
                  (start_of_process :: (nat, nat) process))) 1) \<le> 1
   \<and> map fst (loops_in_thread
        (projr (run [New 10 1 3, Delete 10 1, New 11 1 4, New 12 2 5]
                  (start_of_process :: (nat, nat) process))) 1) = [11]
   \<and> snd (EventLoop_ctor 11 1 4 ((\<lambda>tid. None)(1 \<mapsto> 10))
            :: (nat, nat, thread_locals \<times> (nat, nat) EventLoop) io) = Inl Exit"
  using one_loop_per_thread_when_destroyed_by_owner
    [of "(\<lambda>tid. None)(1 \<mapsto> 10)" 1 11 4 demo_loop
        "[New 10 1 3, Delete 10 1, New 11 1 4, New 12 2 5]"
        "projr (run [New 10 1 3, Delete 10 1, New 11 1 4, New 12 2 5]
                  (start_of_process :: (nat, nat) process))" 1]
  by (simp add: snd_EventLoop_ctor snd_EventLoop_dtor start_of_process_def loops_in_thread_def)

subsection \<open>The wake-up descriptor\<close>

lemma wakeup_eq:
  "wakeup n L =
     (SysWrite (wakeupFd_' L) 1 8 #
        (if n \<noteq> 8 then [Log ERROR ''EventLoop::wakeup() writes %lu bytes instead of 8''] else []),
      Inr ())"
  by (simp add: wakeup_def io_simps)

lemma handleRead_eq:
  "handleRead n L =
     (SysRead (wakeupFd_' L) 8 #
        (if n \<noteq> 8 then [Log ERROR ''EventLoop::handleRead() reads %lu bytes instead of 8''] else []),
      Inr ())"
  by (simp add: handleRead_def io_simps)

text \<open>
  C5, as stated, fails: a \<open>write\<close> or a \<open>read\<close> of 4 bytes on the wake-up descriptor does
  not end the process; \<open>wakeup()\<close> and the read handler return.
\<close>

theorem short_wakeup_transfer_is_fatal_counterexample:
  "\<not> aborts (wakeup 4 demo_loop) \<and> \<not> aborts (handleRead 4 demo_loop)
   \<and> snd (wakeup 4 demo_loop) = Inr () \<and> snd (handleRead 4 demo_loop) = Inr ()"
  by (simp add: wakeup_eq handleRead_eq aborts_def)

text \<open>
  C5, amended. A short write to the wake-up descriptor in \<open>wakeup()\<close>, or a short read from
  it in the wake-up read handler, is reported at level ERROR and is not fatal: the call
  returns and the process goes on.
\<close>

theorem short_wakeup_transfer_reported_and_survived:
  "n \<noteq> 8 \<Longrightarrow>
     \<not> aborts (wakeup n L)
     \<and> Log ERROR ''EventLoop::wakeup() writes %lu bytes instead of 8'' \<in> set (fst (wakeup n L))
     \<and> \<not> aborts (handleRead n L)
     \<and> Log ERROR ''EventLoop::handleRead() reads %lu bytes instead of 8''
         \<in> set (fst (handleRead n L))"
  by (simp add: wakeup_eq handleRead_eq aborts_def)

text \<open>The amended C5 at a transfer of 4 bytes on the example loop.\<close>

theorem short_wakeup_transfer_reported_and_survived_witness:
  "(4 :: 64 word) \<noteq> 8
   \<and> \<not> aborts (wakeup 4 demo_loop)
   \<and> Log ERROR ''EventLoop::wakeup() writes %lu bytes instead of 8''
       \<in> set (fst (wakeup 4 demo_loop))
   \<and> \<not> aborts (handleRead 4 demo_loop)
   \<and> Log ERROR ''EventLoop::handleRead() reads %lu bytes instead of 8''
       \<in> set (fst (handleRead 4 demo_loop))"
proof -
  have h: "(4 :: 64 word) \<noteq> 8" by simp
  show ?thesis
    using h short_wakeup_transfer_reported_and_survived [OF h, of demo_loop] by blast
qed

text \<open>
  C6. \<open>wakeup()\<close> makes one \<open>write\<close> of 8 bytes, the 64-bit value 1, to the wake-up
  descriptor; if the result \<open>n\<close> is not 8 it logs at level ERROR, and in either case it
  returns without ending the process. The read handler makes one \<open>read\<close> of 8 bytes and
  likewise only logs when the result is not 8.
\<close>

theorem wakeup_short_transfer_logged_not_fatal:
  "wakeup n L =
     (SysWrite (wakeupFd_' L) 1 8 #
        (if n \<noteq> 8 then [Log ERROR ''EventLoop::wakeup() writes %lu bytes instead of 8''] else []),
      Inr ())
   \<and> \<not> aborts (wakeup n L)
   \<and> handleRead m L =
     (SysRead (wakeupFd_' L) 8 #
        (if m \<noteq> 8 then [Log ERROR ''EventLoop::handleRead() reads %lu bytes instead of 8''] else []),
      Inr ())
   \<and> \<not> aborts (handleRead m L)"
  by (simp add: wakeup_eq handleRead_eq aborts_def)

text \<open>C6 on the example loop: a short and a full write, a failed and a full read.\<close>

theorem wakeup_short_transfer_logged_not_fatal_witness:
  "wakeup 3 demo_loop =
     ([SysWrite 5 1 8, Log ERROR ''EventLoop::wakeup() writes %lu bytes instead of 8''], Inr ())
   \<and> wakeup 8 demo_loop = ([SysWrite 5 1 8], Inr ())
   \<and> handleRead (- 1) demo_loop =
     ([SysRead 5 8, Log ERROR ''EventLoop::handleRead() reads %lu bytes instead of 8''], Inr ())
   \<and> handleRead 8 demo_loop = ([SysRead 5 8], Inr ())"
  using wakeup_short_transfer_logged_not_fatal [of 3 demo_loop "- 1"]
    wakeup_short_transfer_logged_not_fatal [of 8 demo_loop 8]
  by (simp add: demo_loop_def)

subsection \<open>Tasks\<close>

lemma queueInLoop_eq:
  "queueInLoop n tid cb L =
     ([Lock, EmplaceBack cb, Unlock] @
        (if tid \<noteq> threadId_' L \<or> callingPendingFunctors_' L then fst (wakeup n L) else []),
      Inr (L\<lparr>pendingFunctors_' := pendingFunctors_' L @ [cb]\<rparr>))"
  by (auto simp add: queueInLoop_def isInLoopThread_def wakeup_eq io_simps Let_def)

lemma run_functors_eq:
  "run_functors cbs fs L = (map Invoke fs, Inr (fold (call cbs) fs L))"
  by (induction fs arbitrary: L) (simp_all add: io_simps)

lemma doPendingFunctors_eq:
  "doPendingFunctors cbs L =
     ([Lock, SwapFunctors, Unlock] @ map Invoke (pendingFunctors_' L),
      Inr ((fold (call cbs) (pendingFunctors_' L)
              (L\<lparr>callingPendingFunctors_' := True, pendingFunctors_' := []\<rparr>))
            \<lparr>callingPendingFunctors_' := False\<rparr>))"
  by (simp add: doPendingFunctors_def run_functors_eq io_simps Let_def)

lemma invoked_append: "invoked (as @ bs) = invoked as @ invoked bs"
  by (induction as rule: invoked.induct) simp_all

lemma invoked_map_Invoke: "invoked (map Invoke fs) = fs"
  by (induction fs) simp_all

text \<open>
  C2. \<open>queueInLoop(cb)\<close> locks the mutex, appends \<open>cb\<close> to the end of the pending queue and
  unlocks; after that it calls \<open>wakeup()\<close> exactly when the caller is not the owning thread
  or \<open>callingPendingFunctors_\<close> is set. On the loop thread it therefore wakes the loop
  during the deferred-task phase and does not outside it.
\<close>

theorem queueInLoop_appends_then_wakes:
  "queueInLoop n tid cb L =
     ([Lock, EmplaceBack cb, Unlock] @
        (if tid \<noteq> threadId_' L \<or> callingPendingFunctors_' L then fst (wakeup n L) else []),
      Inr (L\<lparr>pendingFunctors_' := pendingFunctors_' L @ [cb]\<rparr>))
   \<and> (SysWrite (wakeupFd_' L) 1 8 \<in> set (fst (queueInLoop n tid cb L)))
       = (tid \<noteq> threadId_' L \<or> callingPendingFunctors_' L)
   \<and> (tid = threadId_' L \<and> callingPendingFunctors_' L \<longrightarrow>
        fst (queueInLoop n tid cb L) = [Lock, EmplaceBack cb, Unlock] @ fst (wakeup n L))
   \<and> (tid = threadId_' L \<and> \<not> callingPendingFunctors_' L \<longrightarrow>
        fst (queueInLoop n tid cb L) = [Lock, EmplaceBack cb, Unlock])"
  by (simp add: queueInLoop_eq wakeup_eq)

text \<open>
  C2 on the example loop (owned by thread 1): from thread 1 inside the deferred-task
  phase, from thread 1 outside it, and from thread 2.
\<close>

theorem queueInLoop_appends_then_wakes_witness:
  "queueInLoop 8 1 3 (demo_loop\<lparr>callingPendingFunctors_' := True, pendingFunctors_' := [2]\<rparr>) =
     ([Lock, EmplaceBack 3, Unlock, SysWrite 5 1 8],
      Inr (demo_loop\<lparr>callingPendingFunctors_' := True, pendingFunctors_' := [2, 3]\<rparr>))
   \<and> queueInLoop 8 1 3 (demo_loop\<lparr>pendingFunctors_' := [2]\<rparr>) =
     ([Lock, EmplaceBack 3, Unlock], Inr (demo_loop\<lparr>pendingFunctors_' := [2, 3]\<rparr>))
   \<and> queueInLoop 8 2 3 (demo_loop\<lparr>pendingFunctors_' := [2]\<rparr>) =
     ([Lock, EmplaceBack 3, Unlock, SysWrite 5 1 8], Inr (demo_loop\<lparr>pendingFunctors_' := [2, 3]\<rparr>))"
  using queueInLoop_appends_then_wakes
      [of 8 1 3 "demo_loop\<lparr>callingPendingFunctors_' := True, pendingFunctors_' := [2]\<rparr>"]
    queueInLoop_appends_then_wakes [of 8 1 3 "demo_loop\<lparr>pendingFunctors_' := [2]\<rparr>"]
    queueInLoop_appends_then_wakes [of 8 2 3 "demo_loop\<lparr>pendingFunctors_' := [2]\<rparr>"]
  by (simp add: demo_loop_def wakeup_eq)

text \<open>
  C3. Called by the owning thread, \<open>runInLoop(cb)\<close> calls \<open>cb\<close> and returns what \<open>cb\<close> leaves.
  Called by any other thread it is \<open>queueInLoop(cb)\<close>: it calls no task, and returns with
  \<open>cb\<close> at the end of the pending queue, from where the next \<open>doPendingFunctors()\<close> of the
  loop calls it, after the tasks queued before it.
\<close>

theorem runInLoop_inline_or_queued:
  "(tid = threadId_' L \<longrightarrow> runInLoop cbs n tid cb L = ([Invoke cb], Inr (call cbs cb L)))
   \<and> (tid \<noteq> threadId_' L \<longrightarrow>
        runInLoop cbs n tid cb L = queueInLoop n tid cb L
        \<and> invoked (fst (runInLoop cbs n tid cb L)) = []
        \<and> snd (runInLoop cbs n tid cb L) = Inr (L\<lparr>pendingFunctors_' := pendingFunctors_' L @ [cb]\<rparr>)
        \<and> invoked (fst (doPendingFunctors cbs (L\<lparr>pendingFunctors_' := pendingFunctors_' L @ [cb]\<rparr>)))
            = pendingFunctors_' L @ [cb])"
  by (simp add: runInLoop_def isInLoopThread_def queueInLoop_eq wakeup_eq io_simps
      doPendingFunctors_eq invoked_map_Invoke invoked_append)

text \<open>C3 on the example loop: task 3 given by thread 1 (the owner) and by thread 2.\<close>

theorem runInLoop_inline_or_queued_witness:
  "runInLoop demo_callbacks 8 1 3 demo_loop = ([Invoke 3], Inr (demo_loop\<lparr>quit_' := True\<rparr>))
   \<and> runInLoop demo_callbacks 8 2 3 demo_loop =
       ([Lock, EmplaceBack 3, Unlock, SysWrite 5 1 8], Inr (demo_loop\<lparr>pendingFunctors_' := [3]\<rparr>))
   \<and> invoked (fst (doPendingFunctors demo_callbacks (demo_loop\<lparr>pendingFunctors_' := [3]\<rparr>))) = [3]"
  using runInLoop_inline_or_queued [of 1 demo_loop demo_callbacks 8 3]
    runInLoop_inline_or_queued [of 2 demo_loop demo_callbacks 8 3]
  by (simp add: demo_loop_def demo_callbacks_def queueInLoop_eq wakeup_eq)

subsection \<open>The loop\<close>

lemma dispatch_shape:
  "\<exists>hs L'. dispatch cbs cs L = (hs, Inr L') \<and> length hs = length cs \<and> handled hs = cs"
proof (induction cs arbitrary: L)
  case Nil
  show ?case by (simp add: io_simps)
next
  case (Cons c cs)
  from Cons [of "handleEvent cbs c (pollReturnTime_' L) L"]
  obtain hs L' where "dispatch cbs cs (handleEvent cbs c (pollReturnTime_' L) L) = (hs, Inr L')"
    "length hs = length cs" "handled hs = cs" by blast
  then show ?case by (simp add: io_simps)
qed

lemma iteration_eq:
  "dispatch cbs cs (L\<lparr>activeChannels_' := cs, pollReturnTime_' := t\<rparr>) = (hs, Inr L3) \<Longrightarrow>
   iteration cbs (t, cs) L =
     (Poll kPollTimeMs # hs @ fst (doPendingFunctors cbs L3), snd (doPendingFunctors cbs L3))"
  by (simp add: iteration_def io_simps Let_def)




lemma loop_while_Some_quit: "loop_while cbs ps L = (as, Inr (Some L')) \<Longrightarrow> quit_' L'"
proof (induction ps arbitrary: L as)
  case Nil
  then show ?case by (simp add: io_simps split: if_splits)
next
  case (Cons p ps)
  obtain t cs where p: "p = (t, cs)" by (cases p)
  obtain hs L3 where d: "dispatch cbs cs (L\<lparr>activeChannels_' := cs, pollReturnTime_' := t\<rparr>) = (hs, Inr L3)"
    using dispatch_shape by blast
  show ?case
  proof (cases "quit_' L")
    case True
    with Cons.prems show ?thesis by (simp add: io_simps)
  next
    case False
    with Cons.prems have "snd (loop_while cbs ps (projr (snd (doPendingFunctors cbs L3)))) = Inr (Some L')"
      by (simp add: p iteration_eq [OF d] doPendingFunctors_eq io_simps)
    then show ?thesis using Cons.IH by (metis prod.collapse)
  qed
qed

lemma loop_eq:
  "loop cbs ps L =
     (case loop_while cbs ps (L\<lparr>looping_' := True, quit_' := False\<rparr>) of
        (as, Inl e) \<Rightarrow> (Log INFO ''EventLoop %p start looping'' # as, Inl e)
      | (as, Inr None) \<Rightarrow> (Log INFO ''EventLoop %p start looping'' # as, Inr None)
      | (as, Inr (Some L2)) \<Rightarrow>
          (Log INFO ''EventLoop %p start looping'' # as @ [Log INFO ''EventLoop %p stop looping.''],
           Inr (Some (L2\<lparr>looping_' := False\<rparr>))))"
  by (simp add: loop_def io_simps Let_def split: prod.splits sum.splits option.splits)

lemma loop_while_step:
  assumes "\<not> quit_' L"
  shows "\<exists>hs L3 L4.
           dispatch cbs cs (L\<lparr>activeChannels_' := cs, pollReturnTime_' := t\<rparr>) = (hs, Inr L3)
           \<and> length hs = length cs \<and> handled hs = cs
           \<and> doPendingFunctors cbs L3 =
               ([Lock, SwapFunctors, Unlock] @ map Invoke (pendingFunctors_' L3), Inr L4)
           \<and> loop_while cbs ((t, cs) # ps) L =
               (Poll kPollTimeMs # hs @ [Lock, SwapFunctors, Unlock]
                  @ map Invoke (pendingFunctors_' L3) @ fst (loop_while cbs ps L4),
                snd (loop_while cbs ps L4))"
proof -
  obtain hs L3 where d:
    "dispatch cbs cs (L\<lparr>activeChannels_' := cs, pollReturnTime_' := t\<rparr>) = (hs, Inr L3)"
    "length hs = length cs" "handled hs = cs"
    using dispatch_shape by blast
  obtain L4 where p:
    "doPendingFunctors cbs L3 =
       ([Lock, SwapFunctors, Unlock] @ map Invoke (pendingFunctors_' L3), Inr L4)"
    by (simp add: doPendingFunctors_eq)
  have "loop_while cbs ((t, cs) # ps) L =
          (Poll kPollTimeMs # hs @ [Lock, SwapFunctors, Unlock]
             @ map Invoke (pendingFunctors_' L3) @ fst (loop_while cbs ps L4),
           snd (loop_while cbs ps L4))"
    using assms by (simp add: iteration_eq [OF d(1)] p io_simps)
  with d p show ?thesis by blast
qed



text \<open>
  C7, as stated, fails: \<open>loop()\<close> clears the quit flag on entry. The example loop runs one
  pass and returns, stopped; a second call of \<open>loop()\<close> on the stopped object polls again
  and handles channel 9.
\<close>

theorem stopped_loop_runs_again_counterexample:
  "loop demo_callbacks [(100, [7])] demo_loop =
     ([Log INFO ''EventLoop %p start looping'', Poll 10000, HandleEvent 7 100,
       Lock, SwapFunctors, Unlock, Invoke 7, Log INFO ''EventLoop %p stop looping.''],
      Inr (Some stopped_loop))
   \<and> loop demo_callbacks [(200, [9])] stopped_loop =
     ([Log INFO ''EventLoop %p start looping'', Poll 10000, HandleEvent 9 200,
       Lock, SwapFunctors, Unlock, Invoke 9, Log INFO ''EventLoop %p stop looping.''],
      Inr (Some (stopped_loop\<lparr>pollReturnTime_' := 200, activeChannels_' := [9]\<rparr>)))"
  by (simp add: demo_simps)

text \<open>
  C7, amended. An EventLoop that has stopped (\<open>loop()\<close> has returned, with the quit flag set
  and \<open>looping_\<close> cleared) is restartable: a later call of \<open>loop()\<close> on it clears the quit
  flag and runs the reactor again, polling at least once.
\<close>

theorem stopped_loop_is_restartable:
  "loop cbs ps0 L0 = (as0, Inr (Some L)) \<Longrightarrow>
     \<not> looping_' L \<and> quit_' L
     \<and> (\<exists>as r. loop cbs (p # ps) L =
           (Log INFO ''EventLoop %p start looping'' # Poll kPollTimeMs # as, r))"
proof -
  assume stopped: "loop cbs ps0 L0 = (as0, Inr (Some L))"
  obtain bs r where w: "loop_while cbs ps0 (L0\<lparr>looping_' := True, quit_' := False\<rparr>) = (bs, r)"
    by (cases "loop_while cbs ps0 (L0\<lparr>looping_' := True, quit_' := False\<rparr>)")
  have flags: "\<not> looping_' L \<and> quit_' L"
    using stopped loop_while_Some_quit [of cbs ps0 "L0\<lparr>looping_' := True, quit_' := False\<rparr>" bs]
    by (auto simp: loop_eq w split: sum.splits option.splits)
  obtain t cs where p: "p = (t, cs)" by (cases p)
  have "\<not> quit_' (L\<lparr>looping_' := True, quit_' := False\<rparr>)" by simp
  from loop_while_step [OF this, of cbs cs t ps]
  obtain bs' r' where
    "loop_while cbs ((t, cs) # ps) (L\<lparr>looping_' := True, quit_' := False\<rparr>)
       = (Poll kPollTimeMs # bs', r')"
    by blast
  then have "\<exists>as r. loop cbs (p # ps) L =
           (Log INFO ''EventLoop %p start looping'' # Poll kPollTimeMs # as, r)"
    by (simp add: loop_eq p split: sum.splits option.splits)
  with flags show ?thesis by blast
qed

text \<open>The amended C7 on the example: the stopped loop, called again, starts and polls.\<close>

theorem stopped_loop_is_restartable_witness:
  "loop demo_callbacks [(100, [7])] demo_loop =
     ([Log INFO ''EventLoop %p start looping'', Poll 10000, HandleEvent 7 100,
       Lock, SwapFunctors, Unlock, Invoke 7, Log INFO ''EventLoop %p stop looping.''],
      Inr (Some stopped_loop))
   \<and> \<not> looping_' stopped_loop \<and> quit_' stopped_loop
   \<and> take 2 (fst (loop demo_callbacks [(200, [9])] stopped_loop)) =
       [Log INFO ''EventLoop %p start looping'', Poll kPollTimeMs]"
proof -
  have h: "loop demo_callbacks [(100, [7])] demo_loop =
     ([Log INFO ''EventLoop %p start looping'', Poll 10000, HandleEvent 7 100,
       Lock, SwapFunctors, Unlock, Invoke 7, Log INFO ''EventLoop %p stop looping.''],
      Inr (Some stopped_loop))"
    by (simp add: demo_simps)
  from stopped_loop_is_restartable [OF h, of "(200, [9])" "[]"]
  obtain as r where
    "\<not> looping_' stopped_loop" "quit_' stopped_loop"
    "loop demo_callbacks [(200, [9])] stopped_loop =
       (Log INFO ''EventLoop %p start looping'' # Poll kPollTimeMs # as, r)"
    by blast
  with h show ?thesis by simp
qed

subsection \<open>The poll timeout\<close>

text \<open>
  C8. The value of the poll timeout is 10000 milliseconds, but the file does not define it
  once: \<open>EventLoop.cc\<close> declares \<open>kPollTimeMs\<close> twice at file scope, both times as 10000.
\<close>

theorem kPollTimeMs_defined_twice:
  "values_of ''kPollTimeMs'' EventLoop_cc_declarations = [10000, 10000]
   \<and> length (values_of ''kPollTimeMs'' EventLoop_cc_declarations) = 2
   \<and> kPollTimeMs = 10000"
  by (simp add: EventLoop_cc_declarations_def kPollTimeMs_def)

subsection \<open>Thread::start\<close>

lemma start_inv_entry: "start_inv w (start_entry sem0)"
  by (simp add: start_inv_def start_entry_def)

lemma caller_step_inv: "start_inv w s \<Longrightarrow> start_inv w (caller_step s)"
  by (cases "caller s"; cases "worker s"; simp add: start_inv_def caller_step_def)

lemma worker_step_inv: "start_inv w s \<Longrightarrow> start_inv w (worker_step w s)"
  by (cases "caller s"; cases "worker s"; simp add: start_inv_def worker_step_def)

lemma caller_spawn_fails_inv: "start_inv w s \<Longrightarrow> start_inv w (caller_spawn_fails s)"
  by (cases "caller s"; cases "worker s"; simp add: start_inv_def caller_spawn_fails_def)

lemma caller_interrupted_inv: "start_inv w s \<Longrightarrow> start_inv w (caller_interrupted s)"
  by (cases "caller s"; cases "worker s"; simp add: start_inv_def caller_interrupted_def)

lemma start_step_inv: "start_inv w s \<Longrightarrow> start_inv w (start_step w x s)"
  by (cases x)
    (simp_all add: caller_step_inv worker_step_inv caller_spawn_fails_inv caller_interrupted_inv)

lemma start_run_inv: "start_inv w s \<Longrightarrow> start_inv w (start_run w schedule s)"
  unfolding start_run_def
  by (induction schedule arbitrary: s) (simp_all add: start_step_inv)

lemma handshake_inv_entry: "handshake_inv w (start_entry sem0)"
  by (simp add: handshake_inv_def start_inv_def start_entry_def)

lemma caller_step_handshake: "handshake_inv w s \<Longrightarrow> handshake_inv w (caller_step s)"
  by (cases "caller s"; cases "worker s";
      simp add: handshake_inv_def start_inv_def caller_step_def)

lemma worker_step_handshake: "handshake_inv w s \<Longrightarrow> handshake_inv w (worker_step w s)"
  by (cases "caller s"; cases "worker s";
      simp add: handshake_inv_def start_inv_def worker_step_def)

lemma caller_spawn_fails_handshake:
  "handshake_inv w s \<Longrightarrow> handshake_inv w (caller_spawn_fails s)"
  by (cases "caller s"; cases "worker s";
      simp add: handshake_inv_def start_inv_def caller_spawn_fails_def)

lemma start_step_handshake:
  "handshake_inv w s \<Longrightarrow> x \<noteq> Signal \<Longrightarrow> handshake_inv w (start_step w x s)"
  by (cases x)
    (simp_all add: caller_step_handshake worker_step_handshake caller_spawn_fails_handshake)

lemma start_run_handshake:
  "handshake_inv w s \<Longrightarrow> Signal \<notin> set schedule \<Longrightarrow> handshake_inv w (start_run w schedule s)"
proof (induction schedule arbitrary: s)
  case Nil
  then show ?case by (simp add: start_run_def)
next
  case (Cons x schedule)
  from Cons.prems have "x \<noteq> Signal" "Signal \<notin> set schedule" by auto
  with Cons.prems(1) have "handshake_inv w (start_run w schedule (start_step w x s))"
    by (intro Cons.IH start_step_handshake)
  then show ?case by (simp add: start_run_def)
qed

text \<open>
  Under every schedule, interrupted or not: when the worker is about to call the user
  function, or has called it, \<open>tid_\<close> holds the worker's id.
\<close>

lemma tid_stored_before_func:
  "worker (start_run w schedule (start_entry sem0)) = CallFunc
     \<or> worker (start_run w schedule (start_entry sem0)) = FuncCalled
   \<Longrightarrow> tid_' (thread (start_run w schedule (start_entry sem0))) = w"
  using start_run_inv [OF start_inv_entry, of w schedule sem0]
  by (auto simp: start_inv_def)

text \<open>
  Under every schedule in which no signal interrupts the caller: when \<open>start()\<close> has
  returned, the worker has stored its id in \<open>tid_\<close>.
\<close>

lemma start_waits_for_tid_unless_interrupted:
  "Signal \<notin> set schedule \<Longrightarrow> caller (start_run w schedule (start_entry sem0)) = Returned
   \<Longrightarrow> tid_assigned w (start_run w schedule (start_entry sem0))"
  using start_run_handshake [OF handshake_inv_entry, of schedule w sem0]
  by (auto simp: handshake_inv_def start_inv_def tid_assigned_def)

text \<open>
  C9. The first half of the claim holds (the lemma \<open>tid_stored_before_func\<close> above), the
  second does not: \<open>start()\<close> ignores what \<open>sem_wait\<close> returns. The caller initialises the
  semaphore and creates the worker, for which \<open>CurrentThread::tid()\<close> is 42; a signal
  handler then interrupts the caller in \<open>sem_wait\<close> before the worker has run. \<open>start()\<close>
  has returned, the worker is still at its store, and \<open>tid_\<close> is still the 0 of the
  constructor. The same schedule with the caller's own step in place of the signal leaves
  the caller waiting.
\<close>

theorem start_returns_before_tid_when_sem_wait_interrupted:
  "caller (start_run 42 [Caller, Caller, Signal] (start_entry 7)) = Returned
   \<and> worker (start_run 42 [Caller, Caller, Signal] (start_entry 7)) = StoreTid
   \<and> tid_' (thread (start_run 42 [Caller, Caller, Signal] (start_entry 7))) = 0
   \<and> \<not> tid_assigned 42 (start_run 42 [Caller, Caller, Signal] (start_entry 7))
   \<and> caller (start_run 42 [Caller, Caller, Caller] (start_entry 7)) = SemWait"
  by (simp add: start_run_def start_entry_def Thread_ctor_def tid_assigned_def
      caller_step_def caller_interrupted_def)

subsection \<open>TcpConnection\<close>

text \<open>
  C10. \<open>connected()\<close> is true exactly when the stored state is \<open>kConnected\<close>: after
  \<open>setState s\<close> it answers \<open>s = kConnected\<close>, so it is false in each of the three other
  states, and a connection in \<open>kDisconnecting\<close> (half-closing) already reports as not
  connected.
\<close>

theorem connected_iff_kConnected:
  "connected (setState s c) = (s = kConnected)
   \<and> connected c = (state_' c = StateE_value kConnected)
   \<and> \<not> connected (setState kDisconnected c)
   \<and> \<not> connected (setState kConnecting c)
   \<and> \<not> connected (setState kDisconnecting c)
   \<and> connected (setState kConnected c)"
  by (cases s) (simp_all add: connected_def setState_def)

end
